theory Spec2Isabelle
  imports Main
begin

section \<open>The Windows adapter of react-native-sensitive-info\<close>

text \<open>
  The module \<^verbatim>\<open>RNSensitiveInfoCPP.cpp\<close> maps six promise-returning methods onto the
  platform credential vault. The embedding keeps three things explicit that the C++ leaves
  implicit: the promise (a log of the completions made on it), the vault (its records, the
  calls that reached it and the exceptions it raises) and the control flow of
  \<^verbatim>\<open>try { ... } catch (...) { ... }\<close>.

  \<^verbatim>\<open>std::string\<close> and \<^verbatim>\<open>hstring\<close> are both \<^typ>\<open>string\<close>; the conversions
  \<^verbatim>\<open>winrt::to_hstring\<close> and \<^verbatim>\<open>winrt::to_string\<close> are read as the identity.
\<close>

subsection \<open>Options\<close>

text \<open>
  \<^verbatim>\<open>JSValueObject\<close> is a \<^verbatim>\<open>std::map\<close> from field names to \<^verbatim>\<open>JSValue\<close>s. The
  type \<^verbatim>\<open>JSValue\<close> and its conversion \<^verbatim>\<open>AsString\<close> belong to the host library, not to
  this repository: the value type is the type variable \<open>'j\<close> and the conversion is a
  parameter of every operation.
\<close>

type_synonym 'j JSValueObject = "string \<rightharpoonup> 'j"

definition getSharedPreferences :: "('j \<Rightarrow> string) \<Rightarrow> 'j JSValueObject \<Rightarrow> string" where
  "getSharedPreferences AsString options =
     (case options ''sharedPreferencesName'' of
        Some second \<Rightarrow> AsString second
      | None \<Rightarrow> ''shared_preferences'')"

text \<open>
  An instance of the value type for concrete runs, with the conversion the host library
  documents for \<^verbatim>\<open>JSValue::AsString\<close>: null is \<^verbatim>\<open>"null"\<close>, objects and arrays are
  the empty string, a boolean is \<^verbatim>\<open>"true"\<close> or \<^verbatim>\<open>"false"\<close>, a string is itself.
  Numbers are left out of the instance; the theorems below hold for every value type and
  every conversion.
\<close>

datatype JSValue =
    JSNull
  | JSObject "(string \<times> JSValue) list"
  | JSArray "JSValue list"
  | JSString string
  | JSBoolean bool

fun JSValue_AsString :: "JSValue \<Rightarrow> string" where
  "JSValue_AsString JSNull = ''null''"
| "JSValue_AsString (JSString s) = s"
| "JSValue_AsString (JSBoolean b) = (if b then ''true'' else ''false'')"
| "JSValue_AsString (JSObject fields) = ''''"
| "JSValue_AsString (JSArray items) = ''''"

subsection \<open>The promise\<close>

text \<open>
  A \<^verbatim>\<open>ReactPromise<T>\<close> is modelled by the list of completions made on it, oldest first.
  A fresh promise is the empty list; \<^verbatim>\<open>Resolve\<close> and \<^verbatim>\<open>Reject\<close> append.
\<close>

datatype 'r settle = Resolve 'r | Reject string

subsection \<open>The platform\<close>

record PasswordCredential =
  Resource :: string
  UserName :: string
  Password :: string

datatype vault_call =
    NewPasswordVault
  | CallRetrieve string string
  | CallAdd PasswordCredential
  | CallRemove PasswordCredential
  | CallFindAllByResource string

text \<open>
  The platform state: the records of the vault in enumeration order, the exceptions the
  platform is going to raise (one flag per vault call still to come, \<open>True\<close> for a call that
  raises, no flag for a call that does not), and the calls that reached the vault so far,
  each with whether it raised.
\<close>

record world =
  store :: "PasswordCredential list"
  faults :: "bool list"
  trace :: "(vault_call \<times> bool) list"

text \<open>
  Two ways a statement can fail to complete: a C++ exception, which \<^verbatim>\<open>catch (...)\<close>
  handles, and a call through a null object, which it does not.
\<close>

datatype failure = Exception | AccessViolation

type_synonym ('r, 'a) action =
  "'r settle list \<times> world \<Rightarrow> (failure + 'a) \<times> 'r settle list \<times> world"

definition done_with :: "'a \<Rightarrow> ('r, 'a) action" where
  "done_with x = (\<lambda>s. (Inr x, s))"

definition abort :: "failure \<Rightarrow> ('r, 'a) action" where
  "abort e = (\<lambda>s. (Inl e, s))"

definition and_then :: "('r, 'a) action \<Rightarrow> ('a \<Rightarrow> ('r, 'b) action) \<Rightarrow> ('r, 'b) action" where
  "and_then m f = (\<lambda>s. case m s of (Inl e, s') \<Rightarrow> (Inl e, s') | (Inr x, s') \<Rightarrow> f x s')"

definition try_catch :: "('r, 'a) action \<Rightarrow> ('r, 'a) action \<Rightarrow> ('r, 'a) action" where
  "try_catch body handler =
     (\<lambda>s. case body s of (Inl Exception, s') \<Rightarrow> handler s' | other \<Rightarrow> other)"

definition promise_Resolve :: "'r \<Rightarrow> ('r, unit) action" where
  "promise_Resolve v = (\<lambda>(promise, w). (Inr (), promise @ [Resolve v], w))"

definition promise_Reject :: "string \<Rightarrow> ('r, unit) action" where
  "promise_Reject reason = (\<lambda>(promise, w). (Inr (), promise @ [Reject reason], w))"

definition next_raises :: "world \<Rightarrow> bool" where
  "next_raises w = (case faults w of [] \<Rightarrow> False | b # _ \<Rightarrow> b)"

definition called :: "vault_call \<Rightarrow> world \<Rightarrow> world" where
  "called c w = w\<lparr>faults := tl (faults w), trace := trace w @ [(c, next_raises w)]\<rparr>"

definition reach_vault :: "vault_call \<Rightarrow> ('r, unit) action" where
  "reach_vault c =
     (\<lambda>(promise, w).
        (if next_raises w then Inl Exception else Inr (), promise, called c w))"

definition read_store :: "(PasswordCredential list \<Rightarrow> 'a) \<Rightarrow> ('r, 'a) action" where
  "read_store f = (\<lambda>(promise, w). (Inr (f (store w)), promise, w))"

definition write_store ::
  "(PasswordCredential list \<Rightarrow> PasswordCredential list) \<Rightarrow> ('r, unit) action" where
  "write_store f = (\<lambda>(promise, w). (Inr (), promise, w\<lparr>store := f (store w)\<rparr>))"

subsection \<open>The credential vault\<close>

text \<open>
  Modelled from the spec: the platform class \<^verbatim>\<open>PasswordVault\<close>, which the module calls and
  the repository does not contain. A record is identified by (collection name, key) and
  holds one value; a lookup of an absent record answers null (the \<^verbatim>\<open>!data\<close> that the
  callers test); adding to an existing (collection name, key) overwrites; removing takes the
  record of that (collection name, key) away; enumeration gives the records of one
  collection; any call, the construction of the vault object included, may raise a platform
  exception. Reading a property of a credential in hand (\<^verbatim>\<open>UserName\<close>,
  \<^verbatim>\<open>Password\<close>) is a field access.
\<close>

definition at_slot :: "string \<Rightarrow> string \<Rightarrow> PasswordCredential \<Rightarrow> bool" where
  "at_slot resource userName c \<longleftrightarrow> Resource c = resource \<and> UserName c = userName"

fun upsert :: "PasswordCredential \<Rightarrow> PasswordCredential list \<Rightarrow> PasswordCredential list" where
  "upsert c [] = [c]"
| "upsert c (d # ds) =
     (if at_slot (Resource c) (UserName c) d then c # ds else d # upsert c ds)"

definition PasswordVault :: "('r, unit) action" where
  "PasswordVault = reach_vault NewPasswordVault"

definition Retrieve :: "string \<Rightarrow> string \<Rightarrow> ('r, PasswordCredential option) action" where
  "Retrieve resource userName =
     and_then (reach_vault (CallRetrieve resource userName))
       (\<lambda>_. read_store (find (at_slot resource userName)))"

definition Add :: "PasswordCredential \<Rightarrow> ('r, unit) action" where
  "Add creds = and_then (reach_vault (CallAdd creds)) (\<lambda>_. write_store (upsert creds))"

definition Remove :: "PasswordCredential \<Rightarrow> ('r, unit) action" where
  "Remove creds =
     and_then (reach_vault (CallRemove creds))
       (\<lambda>_. write_store (filter (\<lambda>d. \<not> at_slot (Resource creds) (UserName creds) d)))"

definition FindAllByResource :: "string \<Rightarrow> ('r, PasswordCredential list) action" where
  "FindAllByResource resource =
     and_then (reach_vault (CallFindAllByResource resource))
       (\<lambda>_. read_store (filter (\<lambda>c. Resource c = resource)))"

subsection \<open>The six methods\<close>

definition getItem :: "('j \<Rightarrow> string) \<Rightarrow> string \<Rightarrow> 'j JSValueObject \<Rightarrow> (string, unit) action" where
  "getItem AsString key options =
     (if key = [] then promise_Reject ''key is empty''
      else
        try_catch
          (let name = getSharedPreferences AsString options in
           and_then PasswordVault (\<lambda>vault.
           and_then (Retrieve name key) (\<lambda>data.
             case data of
               None \<Rightarrow> promise_Reject ''key not found''
             | Some cred \<Rightarrow> promise_Resolve (Password cred))))
          (promise_Reject ''cannot access datastore''))"

definition setItem ::
  "('j \<Rightarrow> string) \<Rightarrow> string \<Rightarrow> string \<Rightarrow> 'j JSValueObject \<Rightarrow> (string, unit) action" where
  "setItem AsString key val options =
     (if key = [] then promise_Reject ''key is empty''
      else
        try_catch
          (let name = getSharedPreferences AsString options in
           and_then PasswordVault (\<lambda>vault.
             let creds = \<lparr>Resource = name, UserName = key, Password = val\<rparr> in
             and_then (Add creds) (\<lambda>_.
               promise_Resolve val)))
          (promise_Reject ''cannot access datastore''))"

definition deleteItem ::
  "('j \<Rightarrow> string) \<Rightarrow> string \<Rightarrow> 'j JSValueObject \<Rightarrow> (string, unit) action" where
  "deleteItem AsString key options =
     (if key = [] then promise_Reject ''key is empty''
      else
        try_catch
          (let name = getSharedPreferences AsString options in
           and_then PasswordVault (\<lambda>vault.
           and_then (Retrieve name key) (\<lambda>data.
             case data of
               None \<Rightarrow> promise_Reject ''key not found''
             | Some cred \<Rightarrow> and_then (Remove cred) (\<lambda>_. promise_Resolve key))))
          (promise_Reject ''cannot access datastore''))"

text \<open>
  The range-for of \<^verbatim>\<open>getAllItems\<close>. The body calls \<^verbatim>\<open>data.Password()\<close> without testing
  \<^verbatim>\<open>data\<close>: on a null \<^verbatim>\<open>data\<close> that is a call through a null object.
\<close>

fun getAllItems_loop ::
  "string \<Rightarrow> PasswordCredential list \<Rightarrow> (string \<rightharpoonup> string) \<Rightarrow> ('r, string \<rightharpoonup> string) action" where
  "getAllItems_loop name [] returnValue = done_with returnValue"
| "getAllItems_loop name (key # allKeys) returnValue =
     and_then (Retrieve name (UserName key)) (\<lambda>data.
       case data of
         None \<Rightarrow> abort AccessViolation
       | Some cred \<Rightarrow> getAllItems_loop name allKeys (returnValue(UserName key \<mapsto> Password cred)))"

definition getAllItems ::
  "('j \<Rightarrow> string) \<Rightarrow> 'j JSValueObject \<Rightarrow> (string \<rightharpoonup> string, unit) action" where
  "getAllItems AsString options =
     try_catch
       (let name = getSharedPreferences AsString options in
        and_then PasswordVault (\<lambda>vault.
        and_then (FindAllByResource name) (\<lambda>allKeys.
        and_then (getAllItems_loop name allKeys Map.empty) (\<lambda>returnValue.
          promise_Resolve returnValue))))
       (promise_Reject ''cannot access datastore'')"

definition isSensorAvailable :: "(bool, unit) action" where
  "isSensorAvailable = promise_Resolve False"

definition hasEnrolledFingerprints :: "(bool, unit) action" where
  "hasEnrolledFingerprints = promise_Resolve False"

subsection \<open>Other users of the vault\<close>

text \<open>
  The vault is shared: other processes and modules may remove or change a record at any
  moment, and the module takes no lock. \<^verbatim>\<open>getAllItems\<close> is the one method that reads the
  vault more than once for one answer, first the enumeration and then one lookup per
  enumerated record. The run below is \<^verbatim>\<open>getAllItems\<close> with the records changed by
  somebody else (\<open>others\<close>) after the enumeration returned and before the loop starts. The
  change is no call of this module: it is not in the trace and consumes no exception flag.
\<close>

definition getAllItems_interleaved ::
  "('j \<Rightarrow> string) \<Rightarrow> 'j JSValueObject
     \<Rightarrow> (PasswordCredential list \<Rightarrow> PasswordCredential list)
     \<Rightarrow> (string \<rightharpoonup> string, unit) action" where
  "getAllItems_interleaved AsString options others =
     try_catch
       (let name = getSharedPreferences AsString options in
        and_then PasswordVault (\<lambda>vault.
        and_then (FindAllByResource name) (\<lambda>allKeys.
        and_then (write_store others) (\<lambda>_.
        and_then (getAllItems_loop name allKeys Map.empty) (\<lambda>returnValue.
          promise_Resolve returnValue)))))
       (promise_Reject ''cannot access datastore'')"

subsection \<open>Observing a run\<close>

text \<open>
  What a caller and the platform see of a call: the completions on the promise afterwards,
  the platform state afterwards, and whether one of the vault calls made between two
  platform states raised.
\<close>

definition promise_after :: "(failure + 'a) \<times> 'r settle list \<times> world \<Rightarrow> 'r settle list" where
  "promise_after r = fst (snd r)"

definition world_after :: "(failure + 'a) \<times> 'r settle list \<times> world \<Rightarrow> world" where
  "world_after r = snd (snd r)"

definition raised_since :: "world \<Rightarrow> world \<Rightarrow> bool" where
  "raised_since w w' \<longleftrightarrow> list_ex snd (drop (length (trace w)) (trace w'))"

text \<open>The invariant of the data model: at most one record per (collection name, key).\<close>

definition one_record_per_slot :: "world \<Rightarrow> bool" where
  "one_record_per_slot w \<longleftrightarrow> distinct (map (\<lambda>c. (Resource c, UserName c)) (store w))"

text \<open>A platform with the items a:1 and b:2 in the default collection, raising nothing.\<close>

definition two_items :: world where
  "two_items =
     \<lparr>store = [\<lparr>Resource = ''shared_preferences'', UserName = ''a'', Password = ''1''\<rparr>,
               \<lparr>Resource = ''shared_preferences'', UserName = ''b'', Password = ''2''\<rparr>],
      faults = [], trace = []\<rparr>"

section \<open>Properties\<close>

subsection \<open>One step of the platform\<close>

lemma called_simps [simp]:
  "store (called c w) = store w"
  "faults (called c w) = tl (faults w)"
  "trace (called c w) = trace w @ [(c, next_raises w)]"
  by (simp_all add: called_def)

lemma PasswordVault_apply:
  "PasswordVault (p, w) =
     (if next_raises w then Inl Exception else Inr (), p, called NewPasswordVault w)"
  by (simp add: PasswordVault_def reach_vault_def)

lemma Retrieve_apply:
  "Retrieve r u (p, w) =
     (if next_raises w then Inl Exception else Inr (find (at_slot r u) (store w)),
      p, called (CallRetrieve r u) w)"
  by (simp add: Retrieve_def and_then_def reach_vault_def read_store_def)

lemma Add_apply:
  "Add c (p, w) =
     (if next_raises w then (Inl Exception, p, called (CallAdd c) w)
      else (Inr (), p, (called (CallAdd c) w)\<lparr>store := upsert c (store w)\<rparr>))"
  by (simp add: Add_def and_then_def reach_vault_def write_store_def)

lemma Remove_apply:
  "Remove c (p, w) =
     (if next_raises w then (Inl Exception, p, called (CallRemove c) w)
      else (Inr (), p, (called (CallRemove c) w)
              \<lparr>store := filter (\<lambda>d. \<not> at_slot (Resource c) (UserName c) d) (store w)\<rparr>))"
  by (simp add: Remove_def and_then_def reach_vault_def write_store_def)

lemma FindAllByResource_apply:
  "FindAllByResource r (p, w) =
     (if next_raises w then Inl Exception else Inr (filter (\<lambda>c. Resource c = r) (store w)),
      p, called (CallFindAllByResource r) w)"
  by (simp add: FindAllByResource_def and_then_def reach_vault_def read_store_def)

lemmas apply_simps =
  PasswordVault_apply Retrieve_apply Add_apply Remove_apply FindAllByResource_apply
  and_then_def try_catch_def promise_Resolve_def promise_Reject_def done_with_def abort_def

lemmas observe_defs = promise_after_def world_after_def raised_since_def

subsection \<open>Facts about the vault records\<close>

lemma find_upsert: "find (at_slot (Resource c) (UserName c)) (upsert c cs) = Some c"
  by (induction cs) (auto simp: at_slot_def)

lemma find_removed: "find (at_slot r u) (filter (\<lambda>d. \<not> at_slot r u d) cs) = None"
  by (simp add: find_None_iff)

lemma find_at_slot: "find (at_slot r u) cs = Some c \<Longrightarrow> Resource c = r \<and> UserName c = u"
  by (auto simp: find_Some_iff at_slot_def)

lemma find_enumerated:
  "c \<in> set cs \<Longrightarrow> Resource c = name \<Longrightarrow> find (at_slot name (UserName c)) cs \<noteq> None"
  by (auto simp: find_None_iff at_slot_def)

lemma find_slot_absent:
  "(find (at_slot name k) cs = None) = (k \<notin> UserName ` set (filter (\<lambda>c. Resource c = name) cs))"
  by (auto simp: find_None_iff at_slot_def)

lemma graph_of_slots:
  assumes "distinct (map (\<lambda>c. (Resource c, UserName c)) cs)"
  shows "Map.graph (\<lambda>k. map_option Password (find (at_slot name k) cs))
           = {(UserName c, Password c) | c. c \<in> set cs \<and> Resource c = name}"
proof -
  have inj: "inj_on (\<lambda>c. (Resource c, UserName c)) (set cs)"
    using assms by (simp add: distinct_map)
  have found: "find (at_slot name (UserName c)) cs = Some c" if "c \<in> set cs" "Resource c = name" for c
  proof -
    from that obtain d where d: "find (at_slot name (UserName c)) cs = Some d"
      using find_enumerated [of c cs name] by auto
    then have "d \<in> set cs" "Resource d = Resource c" "UserName d = UserName c"
      using that(2) by (auto simp: find_Some_iff at_slot_def)
    with inj that(1) have "d = c" by (auto dest: inj_onD)
    with d show ?thesis by simp
  qed
  show ?thesis
  proof (intro set_eqI iffI)
    fix kv assume "kv \<in> Map.graph (\<lambda>k. map_option Password (find (at_slot name k) cs))"
    then obtain c where "find (at_slot name (fst kv)) cs = Some c" "snd kv = Password c"
      by (cases kv) (auto simp: Map.graph_def)
    then have "c \<in> set cs" "Resource c = name" "UserName c = fst kv" "snd kv = Password c"
      by (auto simp: find_Some_iff at_slot_def)
    then show "kv \<in> {(UserName c, Password c) | c. c \<in> set cs \<and> Resource c = name}"
      by (cases kv) auto
  next
    fix kv assume "kv \<in> {(UserName c, Password c) | c. c \<in> set cs \<and> Resource c = name}"
    then obtain c where "kv = (UserName c, Password c)" "c \<in> set cs" "Resource c = name"
      by blast
    then show "kv \<in> Map.graph (\<lambda>k. map_option Password (find (at_slot name k) cs))"
      using found [of c] by (simp add: Map.graph_def)
  qed
qed

lemma records_as_list:
  "{(UserName c, Password c) | c. c \<in> set cs \<and> Resource c = name}
     = set (map (\<lambda>c. (UserName c, Password c)) (filter (\<lambda>c. Resource c = name) cs))"
  by auto

lemma slots_upsert:
  "(\<lambda>c. (Resource c, UserName c)) ` set (upsert c cs)
     = insert (Resource c, UserName c) ((\<lambda>c. (Resource c, UserName c)) ` set cs)"
  by (induction cs) (auto simp: at_slot_def)

lemma distinct_slots_upsert:
  "distinct (map (\<lambda>c. (Resource c, UserName c)) cs)
     \<Longrightarrow> distinct (map (\<lambda>c. (Resource c, UserName c)) (upsert c cs))"
proof (induction cs)
  case Nil
  then show ?case by simp
next
  case (Cons d ds)
  show ?case
  proof (cases "at_slot (Resource c) (UserName c) d")
    case True
    with Cons.prems show ?thesis by (simp add: at_slot_def)
  next
    case False
    then have "(Resource d, UserName d) \<noteq> (Resource c, UserName c)"
      by (auto simp: at_slot_def)
    with Cons False show ?thesis
      using slots_upsert [of c ds] by auto
  qed
qed

subsection \<open>The paths of each method\<close>

lemma getItem_cases:
  "key \<noteq> [] \<Longrightarrow> getItem A key opts (p, w) =
    (let name = getSharedPreferences A opts; w1 = called NewPasswordVault w; w2 = called (CallRetrieve name key) w1 in
     if next_raises w then (Inr (), p @ [Reject ''cannot access datastore''], w1)
     else if next_raises w1 then (Inr (), p @ [Reject ''cannot access datastore''], w2)
     else case find (at_slot name key) (store w) of
        None \<Rightarrow> (Inr (), p @ [Reject ''key not found''], w2)
      | Some c \<Rightarrow> (Inr (), p @ [Resolve (Password c)], w2))"
  by (simp add: getItem_def apply_simps Let_def split: option.splits)

lemma setItem_cases:
  "key \<noteq> [] \<Longrightarrow> setItem A key v opts (p, w) =
    (let creds = \<lparr>Resource = getSharedPreferences A opts, UserName = key, Password = v\<rparr>;
         w1 = called NewPasswordVault w; w2 = called (CallAdd creds) w1 in
     if next_raises w then (Inr (), p @ [Reject ''cannot access datastore''], w1)
     else if next_raises w1 then (Inr (), p @ [Reject ''cannot access datastore''], w2)
     else (Inr (), p @ [Resolve v], w2\<lparr>store := upsert creds (store w)\<rparr>))"
  by (simp add: setItem_def apply_simps Let_def)

lemma deleteItem_cases:
  "key \<noteq> [] \<Longrightarrow> deleteItem A key opts (p, w) =
    (let name = getSharedPreferences A opts;
         w1 = called NewPasswordVault w; w2 = called (CallRetrieve name key) w1 in
     if next_raises w then (Inr (), p @ [Reject ''cannot access datastore''], w1)
     else if next_raises w1 then (Inr (), p @ [Reject ''cannot access datastore''], w2)
     else case find (at_slot name key) (store w) of
        None \<Rightarrow> (Inr (), p @ [Reject ''key not found''], w2)
      | Some c \<Rightarrow>
          (if next_raises w2 then (Inr (), p @ [Reject ''cannot access datastore''], called (CallRemove c) w2)
           else (Inr (), p @ [Resolve key],
                 (called (CallRemove c) w2)\<lparr>store := filter (\<lambda>d. \<not> at_slot (Resource c) (UserName c) d) (store w)\<rparr>)))"
  by (simp add: deleteItem_def apply_simps Let_def split: option.splits)

lemma loop_run:
  assumes "\<forall>c\<in>set ks. c \<in> set (store w) \<and> Resource c = name"
  shows "\<exists>r w' ext. getAllItems_loop name ks rv (p, w) = (r, p, w')
           \<and> store w' = store w \<and> trace w' = trace w @ ext
           \<and> (case r of
                 Inl e \<Rightarrow> e = Exception \<and> list_ex snd ext
               | Inr m \<Rightarrow> \<not> list_ex snd ext
                    \<and> m = (\<lambda>k. if k \<in> UserName ` set ks
                                then map_option Password (find (at_slot name k) (store w))
                                else rv k))"
  using assms
proof (induction ks arbitrary: rv w)
  case Nil
  then show ?case by (simp add: done_with_def)
next
  case (Cons key allKeys)
  show ?case
  proof (cases "next_raises w")
    case True
    then show ?thesis by (simp add: apply_simps)
  next
    case False
    let ?w1 = "called (CallRetrieve name (UserName key)) w"
    from Cons.prems obtain cred where found: "find (at_slot name (UserName key)) (store w) = Some cred"
      using find_enumerated [of key "store w" name] by auto
    have "\<forall>c\<in>set allKeys. c \<in> set (store ?w1) \<and> Resource c = name"
      using Cons.prems by simp
    from Cons.IH [OF this, of "rv(UserName key \<mapsto> Password cred)"]
    obtain r w' ext where run:
      "getAllItems_loop name allKeys (rv(UserName key \<mapsto> Password cred)) (p, ?w1) = (r, p, w')"
      "store w' = store ?w1" "trace w' = trace ?w1 @ ext"
      "case r of
         Inl e \<Rightarrow> e = Exception \<and> list_ex snd ext
       | Inr m \<Rightarrow> \<not> list_ex snd ext
            \<and> m = (\<lambda>k. if k \<in> UserName ` set allKeys
                        then map_option Password (find (at_slot name k) (store ?w1))
                        else (rv(UserName key \<mapsto> Password cred)) k)"
      by blast
    have step: "getAllItems_loop name (key # allKeys) rv (p, w) = (r, p, w')"
      using False found run(1) by (simp add: apply_simps)
    have tr: "trace w' = trace w @ ((CallRetrieve name (UserName key), False) # ext)"
      using run(3) False by simp
    have res: "case r of
         Inl e \<Rightarrow> e = Exception \<and> list_ex snd ((CallRetrieve name (UserName key), False) # ext)
       | Inr m \<Rightarrow> \<not> list_ex snd ((CallRetrieve name (UserName key), False) # ext)
            \<and> m = (\<lambda>k. if k \<in> UserName ` set (key # allKeys)
                        then map_option Password (find (at_slot name k) (store w))
                        else rv k)"
      using run(4) found by (auto split: sum.splits simp: fun_eq_iff)
    have st: "store w' = store w" using run(2) by simp
    from step st tr res show ?thesis by blast
  qed
qed

lemma getAllItems_run:
  "\<exists>w' ext. store w' = store w \<and> trace w' = trace w @ ext
     \<and> getAllItems A opts (p, w) =
         (Inr (),
          p @ [if list_ex snd ext then Reject ''cannot access datastore''
               else Resolve (\<lambda>k. map_option Password
                                   (find (at_slot (getSharedPreferences A opts) k) (store w)))],
          w')"
proof -
  let ?name = "getSharedPreferences A opts"
  let ?w1 = "called NewPasswordVault w"
  let ?w2 = "called (CallFindAllByResource ?name) ?w1"
  let ?ks = "filter (\<lambda>c. Resource c = ?name) (store w)"
  show ?thesis
  proof (cases "next_raises w")
    case True
    then have "getAllItems A opts (p, w) = (Inr (), p @ [Reject ''cannot access datastore''], ?w1)"
      by (simp add: getAllItems_def apply_simps Let_def)
    moreover have "trace ?w1 = trace w @ [(NewPasswordVault, True)]" using True by simp
    ultimately show ?thesis by (intro exI [of _ ?w1] exI [of _ "[(NewPasswordVault, True)]"]) simp
  next
    case first: False
    show ?thesis
    proof (cases "next_raises ?w1")
      case True
      then have "getAllItems A opts (p, w) = (Inr (), p @ [Reject ''cannot access datastore''], ?w2)"
        using first by (simp add: getAllItems_def apply_simps Let_def)
      moreover have "trace ?w2 = trace w @ [(NewPasswordVault, False), (CallFindAllByResource ?name, True)]"
        using first True by simp
      ultimately show ?thesis
        by (intro exI [of _ ?w2]
              exI [of _ "[(NewPasswordVault, False), (CallFindAllByResource ?name, True)]"]) simp
    next
      case second: False
      have "\<forall>c\<in>set ?ks. c \<in> set (store ?w2) \<and> Resource c = ?name" by simp
      from loop_run [OF this, of Map.empty p]
      obtain r w' ext where run:
        "getAllItems_loop ?name ?ks Map.empty (p, ?w2) = (r, p, w')"
        "store w' = store ?w2" "trace w' = trace ?w2 @ ext"
        "case r of
           Inl e \<Rightarrow> e = Exception \<and> list_ex snd ext
         | Inr m \<Rightarrow> \<not> list_ex snd ext
              \<and> m = (\<lambda>k. if k \<in> UserName ` set ?ks
                          then map_option Password (find (at_slot ?name k) (store ?w2))
                          else Map.empty k)"
        by blast
      let ?ext = "(NewPasswordVault, False) # (CallFindAllByResource ?name, False) # ext"
      have tr: "trace w' = trace w @ ?ext" using run(3) first second by simp
      have st: "store w' = store w" using run(2) by simp
      have body: "getAllItems A opts (p, w) =
          (case r of
             Inl e \<Rightarrow> (Inr (), p @ [Reject ''cannot access datastore''], w')
           | Inr m \<Rightarrow> (Inr (), p @ [Resolve m], w'))"
        using first second run(1,4)
        by (simp add: getAllItems_def apply_simps Let_def split: sum.splits)
      have "getAllItems A opts (p, w) =
         (Inr (),
          p @ [if list_ex snd ?ext then Reject ''cannot access datastore''
               else Resolve (\<lambda>k. map_option Password (find (at_slot ?name k) (store w)))],
          w')"
      proof (cases r)
        case (Inl e)
        then show ?thesis using body run(4) by simp
      next
        case (Inr m)
        then have m: "m = (\<lambda>k. if k \<in> UserName ` set ?ks
                          then map_option Password (find (at_slot ?name k) (store w))
                          else None)"
          and quiet: "\<not> list_ex snd ext"
          using run(4) by (simp_all cong: if_cong)
        have "m = (\<lambda>k. map_option Password (find (at_slot ?name k) (store w)))"
          unfolding m using find_slot_absent [of ?name _ "store w"] by (auto simp: fun_eq_iff)
        then show ?thesis using body Inr quiet by simp
      qed
      with st tr show ?thesis by blast
    qed
  qed
qed

lemma getAllItems_outcome:
  "fst (getAllItems AsString options (p, w)) = Inr ()"
  "promise_after (getAllItems AsString options (p, w)) =
     p @ [if raised_since w (world_after (getAllItems AsString options (p, w)))
          then Reject ''cannot access datastore''
          else Resolve (\<lambda>k. map_option Password
                  (find (at_slot (getSharedPreferences AsString options) k) (store w)))]"
proof -
  from getAllItems_run [of w AsString options p]
  obtain w' ext where run: "trace w' = trace w @ ext"
    "getAllItems AsString options (p, w) =
       (Inr (),
        p @ [if list_ex snd ext then Reject ''cannot access datastore''
             else Resolve (\<lambda>k. map_option Password
                     (find (at_slot (getSharedPreferences AsString options) k) (store w)))],
        w')"
    by blast
  show "fst (getAllItems AsString options (p, w)) = Inr ()"
    by (simp add: run(2))
  have "raised_since w (world_after (getAllItems AsString options (p, w))) = list_ex snd ext"
    by (simp add: run world_after_def raised_since_def)
  then show "promise_after (getAllItems AsString options (p, w)) =
     p @ [if raised_since w (world_after (getAllItems AsString options (p, w)))
          then Reject ''cannot access datastore''
          else Resolve (\<lambda>k. map_option Password
                  (find (at_slot (getSharedPreferences AsString options) k) (store w)))]"
    by (simp add: run(2) promise_after_def)
qed

lemma getAllItems_keeps_store:
  "store (world_after (getAllItems AsString options (p, w))) = store w"
  using getAllItems_run [of w AsString options p] by (auto simp: world_after_def)

lemma getItem_keeps_store:
  "store (world_after (getItem AsString key options (p, w))) = store w"
proof (cases "key = []")
  case True
  then show ?thesis by (simp add: getItem_def promise_Reject_def world_after_def)
next
  case False
  then show ?thesis by (simp add: getItem_cases Let_def world_after_def split: option.splits)
qed

lemma setItem_store:
  "store (world_after (setItem AsString key val options (p, w))) = store w
   \<or> store (world_after (setItem AsString key val options (p, w)))
       = upsert \<lparr>Resource = getSharedPreferences AsString options, UserName = key, Password = val\<rparr>
           (store w)"
proof (cases "key = []")
  case True
  then show ?thesis by (simp add: setItem_def promise_Reject_def world_after_def)
next
  case False
  then show ?thesis by (simp add: setItem_cases Let_def world_after_def)
qed

lemma deleteItem_store:
  "store (world_after (deleteItem AsString key options (p, w))) = store w
   \<or> store (world_after (deleteItem AsString key options (p, w)))
       = filter (\<lambda>d. \<not> at_slot (getSharedPreferences AsString options) key d) (store w)"
proof (cases "key = []")
  case True
  then show ?thesis by (simp add: deleteItem_def promise_Reject_def world_after_def)
next
  case False
  then show ?thesis
    by (auto simp: deleteItem_cases Let_def world_after_def split: option.splits
          dest!: find_at_slot)
qed

subsection \<open>The methods keep the invariant of the vault\<close>

lemma operations_keep_one_record_per_slot:
  assumes "one_record_per_slot w"
  shows "one_record_per_slot (world_after (getItem AsString key options (p, w)))"
    and "one_record_per_slot (world_after (setItem AsString key val options (p, w)))"
    and "one_record_per_slot (world_after (deleteItem AsString key options (p, w)))"
    and "one_record_per_slot (world_after (getAllItems AsString options (pa, w)))"
proof -
  show "one_record_per_slot (world_after (getItem AsString key options (p, w)))"
    using assms by (simp add: one_record_per_slot_def getItem_keeps_store)
  show "one_record_per_slot (world_after (setItem AsString key val options (p, w)))"
    using assms distinct_slots_upsert setItem_store [of AsString key val options p w]
    by (auto simp: one_record_per_slot_def)
  show "one_record_per_slot (world_after (deleteItem AsString key options (p, w)))"
    using assms deleteItem_store [of AsString key options p w]
    by (auto simp: one_record_per_slot_def distinct_map_filter)
  show "one_record_per_slot (world_after (getAllItems AsString options (pa, w)))"
    using assms by (simp add: one_record_per_slot_def getAllItems_keeps_store)
qed

subsection \<open>Runs that nobody else disturbs\<close>

text \<open>
  When the records change only through the calls of the method itself, every method returns
  normally with exactly one completion on its promise. For \<^verbatim>\<open>getAllItems\<close> this rests on
  \<open>loop_run\<close>: an enumerated record is found again by the lookup, so the unchecked
  \<^verbatim>\<open>data.Password()\<close> of the loop does not meet a null \<^verbatim>\<open>data\<close>.
\<close>

lemma undisturbed_run_completes_once:
  "(\<exists>c w'. getItem AsString key options (p, w) = (Inr (), p @ [c], w'))
   \<and> (\<exists>c w'. setItem AsString key val options (p, w) = (Inr (), p @ [c], w'))
   \<and> (\<exists>c w'. deleteItem AsString key options (p, w) = (Inr (), p @ [c], w'))
   \<and> (\<exists>c w'. getAllItems AsString options (pa, w) = (Inr (), pa @ [c], w'))
   \<and> (\<exists>c w'. isSensorAvailable (pb, w) = (Inr (), pb @ [c], w'))
   \<and> (\<exists>c w'. hasEnrolledFingerprints (pb, w) = (Inr (), pb @ [c], w'))"
proof (intro conjI)
  show "\<exists>c w'. getItem AsString key options (p, w) = (Inr (), p @ [c], w')"
  proof (cases "key = []")
    case True
    then show ?thesis by (simp add: getItem_def promise_Reject_def)
  next
    case False
    then show ?thesis by (simp add: getItem_cases Let_def split: option.splits)
  qed
  show "\<exists>c w'. setItem AsString key val options (p, w) = (Inr (), p @ [c], w')"
  proof (cases "key = []")
    case True
    then show ?thesis by (simp add: setItem_def promise_Reject_def)
  next
    case False
    then show ?thesis by (simp add: setItem_cases Let_def)
  qed
  show "\<exists>c w'. deleteItem AsString key options (p, w) = (Inr (), p @ [c], w')"
  proof (cases "key = []")
    case True
    then show ?thesis by (simp add: deleteItem_def promise_Reject_def)
  next
    case False
    then show ?thesis by (simp add: deleteItem_cases Let_def split: option.splits)
  qed
  show "\<exists>c w'. getAllItems AsString options (pa, w) = (Inr (), pa @ [c], w')"
    using getAllItems_outcome [of AsString options pa w]
    by (cases "getAllItems AsString options (pa, w)") (auto simp: promise_after_def)
  show "\<exists>c w'. isSensorAvailable (pb, w) = (Inr (), pb @ [c], w')"
    by (simp add: isSensorAvailable_def promise_Resolve_def)
  show "\<exists>c w'. hasEnrolledFingerprints (pb, w) = (Inr (), pb @ [c], w')"
    by (simp add: hasEnrolledFingerprints_def promise_Resolve_def)
qed

lemma getAllItems_interleaved_undisturbed:
  "getAllItems_interleaved AsString options (\<lambda>cs. cs) = getAllItems AsString options"
  by (rule ext)
    (simp add: getAllItems_interleaved_def getAllItems_def write_store_def apply_simps Let_def
       split: prod.splits sum.splits)

subsection \<open>Evaluating concrete runs\<close>

lemmas eval_simps =
  getItem_cases setItem_cases deleteItem_cases Let_def observe_defs getSharedPreferences_def
  two_items_def at_slot_def next_raises_def

lemmas run_simps =
  getAllItems_def apply_simps Let_def observe_defs getSharedPreferences_def
  two_items_def at_slot_def next_raises_def called_def

section \<open>The claims\<close>

text \<open>
  C1. With an empty key, getItem, setItem and deleteItem reject the promise with
  "key is empty" and return with the platform state exactly as it was: no call reached the
  vault (the trace is unchanged), no record changed, no exception was consumed.
\<close>

theorem empty_key_rejects_without_vault_access:
  "getItem AsString [] options (promise, w) = (Inr (), promise @ [Reject ''key is empty''], w)
   \<and> setItem AsString [] val options (promise, w) = (Inr (), promise @ [Reject ''key is empty''], w)
   \<and> deleteItem AsString [] options (promise, w) = (Inr (), promise @ [Reject ''key is empty''], w)"
  by (simp add: getItem_def setItem_def deleteItem_def promise_Reject_def)

text \<open>
  C2. For a non-empty key, after a setItem that resolved its promise, a getItem of the same
  key in the same collection resolves with exactly the value that was set, provided no vault
  call of the getItem raised. The platform state before the setItem is arbitrary; in
  particular (second part) it may be the state left by an earlier setItem of the same key
  with another value: the getItem returns the value of the second setItem.
\<close>

theorem setItem_then_getItem:
  assumes "key \<noteq> []"
    and "getSharedPreferences AsString options' = getSharedPreferences AsString options"
  shows
    "(let s = setItem AsString key val options (p, w);
          g = getItem AsString key options' (q, world_after s)
      in promise_after s = p @ [Resolve x] \<and> \<not> raised_since (world_after s) (world_after g)
           \<longrightarrow> promise_after g = q @ [Resolve val])
     \<and> (let s1 = setItem AsString key first options (p1, w);
              s2 = setItem AsString key val options (p, world_after s1);
              g = getItem AsString key options' (q, world_after s2)
          in promise_after s2 = p @ [Resolve x] \<and> \<not> raised_since (world_after s2) (world_after g)
               \<longrightarrow> promise_after g = q @ [Resolve val])"
proof -
  have roundtrip:
    "promise_after (getItem AsString key options' (q, world_after (setItem AsString key val options (p, u))))
       = q @ [Resolve val]"
    if "promise_after (setItem AsString key val options (p, u)) = p @ [Resolve x]"
      and "\<not> raised_since (world_after (setItem AsString key val options (p, u)))
             (world_after (getItem AsString key options' (q, world_after (setItem AsString key val options (p, u)))))"
    for u
  proof -
    let ?creds = "\<lparr>Resource = getSharedPreferences AsString options, UserName = key, Password = val\<rparr>"
    let ?s = "setItem AsString key val options (p, u)"
    have stored: "store (world_after ?s) = upsert ?creds (store u)"
      using that(1) assms(1) by (auto simp: setItem_cases Let_def observe_defs split: if_splits)
    have "find (at_slot (getSharedPreferences AsString options') key) (store (world_after ?s)) = Some ?creds"
      using find_upsert [of ?creds "store u"] by (simp add: stored assms(2))
    then show ?thesis
      using that(2) assms(1) by (auto simp: getItem_cases Let_def observe_defs split: if_splits)
  qed
  show ?thesis
    unfolding Let_def using roundtrip by blast
qed

theorem setItem_then_getItem_witness:
  "''k'' \<noteq> []
   \<and> promise_after (setItem JSValue_AsString ''k'' ''2'' Map.empty ([], two_items)) = [Resolve ''2'']
   \<and> promise_after (getItem JSValue_AsString ''k'' Map.empty
         ([], world_after (setItem JSValue_AsString ''k'' ''2'' Map.empty ([], two_items))))
       = [Resolve ''2'']
   \<and> promise_after (getItem JSValue_AsString ''k'' Map.empty
         ([], world_after (setItem JSValue_AsString ''k'' ''2'' Map.empty
           ([], world_after (setItem JSValue_AsString ''k'' ''1'' Map.empty ([], two_items))))))
       = [Resolve ''2'']"
  using setItem_then_getItem [where key = "''k''" and AsString = JSValue_AsString
      and options = Map.empty and options' = Map.empty and val = "''2''" and first = "''1''"
      and p = "[]" and q = "[]" and ?p1.0 = "[]" and w = two_items and x = "''2''"]
  by (simp add: eval_simps)

text \<open>
  C3. For a non-empty key with no record at (resolved collection, key), getItem rejects the
  promise with "key not found", provided no vault call of the getItem raised (a call that
  raises gives the rejection of C6 instead).
\<close>

theorem getItem_absent_key_not_found:
  assumes "key \<noteq> []"
    and "find (at_slot (getSharedPreferences AsString options) key) (store w) = None"
    and "\<not> raised_since w (world_after (getItem AsString key options (promise, w)))"
  shows "promise_after (getItem AsString key options (promise, w))
           = promise @ [Reject ''key not found'']"
  using assms by (auto simp: getItem_cases Let_def observe_defs split: if_splits)

theorem getItem_absent_key_not_found_witness:
  "''c'' \<noteq> []
   \<and> find (at_slot (getSharedPreferences JSValue_AsString Map.empty) ''c'') (store two_items) = None
   \<and> \<not> raised_since two_items (world_after (getItem JSValue_AsString ''c'' Map.empty ([], two_items)))
   \<and> promise_after (getItem JSValue_AsString ''c'' Map.empty ([], two_items))
        = [Reject ''key not found'']"
proof -
  have h1: "''c'' \<noteq> []" by simp
  have h2: "find (at_slot (getSharedPreferences JSValue_AsString Map.empty) ''c'') (store two_items) = None"
    by (simp add: getSharedPreferences_def two_items_def at_slot_def)
  have h3: "\<not> raised_since two_items
               (world_after (getItem JSValue_AsString ''c'' Map.empty ([], two_items)))"
    by (simp add: getItem_cases Let_def observe_defs getSharedPreferences_def two_items_def
          at_slot_def next_raises_def)
  from getItem_absent_key_not_found [OF h1 h2 h3] h1 h2 h3 show ?thesis by simp
qed

text \<open>
  C4. For a non-empty key and a deleteItem during which no vault call raised: if the resolved
  collection has no record for the key, the promise is rejected with "key not found"; if it
  has one, the promise is resolved with the key itself, the records of that (collection, key)
  are gone from the vault and the others are untouched, and a getItem of the key that follows
  (no vault call raising) rejects with "key not found".
\<close>

theorem deleteItem_absent_and_present:
  assumes "key \<noteq> []"
    and "\<not> raised_since w (world_after (deleteItem AsString key options (p, w)))"
  shows
    "(find (at_slot (getSharedPreferences AsString options) key) (store w) = None \<longrightarrow>
        promise_after (deleteItem AsString key options (p, w)) = p @ [Reject ''key not found''])
     \<and> (find (at_slot (getSharedPreferences AsString options) key) (store w) \<noteq> None \<longrightarrow>
          (let w1 = world_after (deleteItem AsString key options (p, w));
               g = getItem AsString key options (q, w1)
           in promise_after (deleteItem AsString key options (p, w)) = p @ [Resolve key]
              \<and> store w1 =
                  filter (\<lambda>d. \<not> at_slot (getSharedPreferences AsString options) key d) (store w)
              \<and> (\<not> raised_since w1 (world_after g) \<longrightarrow>
                    promise_after g = q @ [Reject ''key not found''])))"
proof (intro conjI impI)
  assume "find (at_slot (getSharedPreferences AsString options) key) (store w) = None"
  then show "promise_after (deleteItem AsString key options (p, w)) = p @ [Reject ''key not found'']"
    using assms by (auto simp: deleteItem_cases Let_def observe_defs split: if_splits)
next
  let ?name = "getSharedPreferences AsString options"
  let ?d = "deleteItem AsString key options (p, w)"
  assume "find (at_slot ?name key) (store w) \<noteq> None"
  then obtain c where c: "find (at_slot ?name key) (store w) = Some c" by blast
  then have slot: "Resource c = ?name" "UserName c = key"
    using find_at_slot by blast+
  have resolved: "promise_after ?d = p @ [Resolve key]"
    using assms c by (auto simp: deleteItem_cases Let_def observe_defs split: if_splits)
  have removed: "store (world_after ?d) = filter (\<lambda>d. \<not> at_slot ?name key d) (store w)"
    using assms c slot by (auto simp: deleteItem_cases Let_def observe_defs split: if_splits)
  have gone: "find (at_slot ?name key) (store (world_after ?d)) = None"
    by (simp only: removed find_removed)
  have "promise_after (getItem AsString key options (q, world_after ?d)) = q @ [Reject ''key not found'']"
    if "\<not> raised_since (world_after ?d) (world_after (getItem AsString key options (q, world_after ?d)))"
    using that assms(1) gone by (auto simp: getItem_cases Let_def observe_defs split: if_splits)
  with resolved removed
  show "let w1 = world_after ?d; g = getItem AsString key options (q, w1)
        in promise_after ?d = p @ [Resolve key]
           \<and> store w1 = filter (\<lambda>d. \<not> at_slot ?name key d) (store w)
           \<and> (\<not> raised_since w1 (world_after g) \<longrightarrow> promise_after g = q @ [Reject ''key not found''])"
    by (simp add: Let_def)
qed

theorem deleteItem_absent_and_present_witness:
  "''a'' \<noteq> [] \<and> ''c'' \<noteq> []
   \<and> promise_after (deleteItem JSValue_AsString ''c'' Map.empty ([], two_items))
       = [Reject ''key not found'']
   \<and> promise_after (deleteItem JSValue_AsString ''a'' Map.empty ([], two_items)) = [Resolve ''a'']
   \<and> store (world_after (deleteItem JSValue_AsString ''a'' Map.empty ([], two_items)))
       = [\<lparr>Resource = ''shared_preferences'', UserName = ''b'', Password = ''2''\<rparr>]
   \<and> promise_after (getItem JSValue_AsString ''a'' Map.empty
         ([], world_after (deleteItem JSValue_AsString ''a'' Map.empty ([], two_items))))
       = [Reject ''key not found'']"
  using deleteItem_absent_and_present [where key = "''a''" and AsString = JSValue_AsString
      and options = Map.empty and p = "[]" and q = "[]" and w = two_items]
    deleteItem_absent_and_present [where key = "''c''" and AsString = JSValue_AsString
      and options = Map.empty and p = "[]" and q = "[]" and w = two_items]
  by (simp add: eval_simps)

text \<open>
  C5. On a vault with at most one record per (collection, key), a getAllItems during which no
  vault call raised resolves with a mapping whose (key, value) pairs are exactly those of the
  records of the resolved collection; if the collection has no record the mapping is empty.
\<close>

theorem getAllItems_exactly_the_records:
  assumes "one_record_per_slot w"
    and "\<not> raised_since w (world_after (getAllItems AsString options (p, w)))"
  shows "\<exists>m. promise_after (getAllItems AsString options (p, w)) = p @ [Resolve m]
           \<and> Map.graph m =
               {(UserName c, Password c) | c.
                  c \<in> set (store w) \<and> Resource c = getSharedPreferences AsString options}
           \<and> ((\<forall>c\<in>set (store w). Resource c \<noteq> getSharedPreferences AsString options)
                 \<longrightarrow> m = Map.empty)"
proof -
  let ?name = "getSharedPreferences AsString options"
  let ?m = "\<lambda>k. map_option Password (find (at_slot ?name k) (store w))"
  have "promise_after (getAllItems AsString options (p, w)) = p @ [Resolve ?m]"
    using assms(2) by (simp add: getAllItems_outcome)
  moreover have "Map.graph ?m = {(UserName c, Password c) | c. c \<in> set (store w) \<and> Resource c = ?name}"
    using assms(1) by (intro graph_of_slots) (simp add: one_record_per_slot_def)
  moreover have "?m = Map.empty" if "\<forall>c\<in>set (store w). Resource c \<noteq> ?name"
    using that by (auto simp: fun_eq_iff find_None_iff at_slot_def)
  ultimately show ?thesis by blast
qed

theorem getAllItems_exactly_the_records_witness:
  "one_record_per_slot two_items
   \<and> \<not> raised_since two_items (world_after (getAllItems JSValue_AsString Map.empty ([], two_items)))
   \<and> promise_after (getAllItems JSValue_AsString Map.empty ([], two_items))
        = [Resolve [''a'' \<mapsto> ''1'', ''b'' \<mapsto> ''2'']]
   \<and> (\<exists>m. promise_after (getAllItems JSValue_AsString Map.empty ([], two_items)) = [Resolve m]
          \<and> Map.graph m = {(''a'', ''1''), (''b'', ''2'')})
   \<and> promise_after (getAllItems JSValue_AsString [''sharedPreferencesName'' \<mapsto> JSString ''unused'']
          ([], two_items)) = [Resolve Map.empty]"
proof -
  have h1: "one_record_per_slot two_items"
    by (simp add: one_record_per_slot_def two_items_def)
  have run: "getAllItems JSValue_AsString Map.empty ([], two_items) =
      (Inr (), [Resolve [''a'' \<mapsto> ''1'', ''b'' \<mapsto> ''2'']],
       two_items\<lparr>trace := [(NewPasswordVault, False),
                             (CallFindAllByResource ''shared_preferences'', False),
                             (CallRetrieve ''shared_preferences'' ''a'', False),
                             (CallRetrieve ''shared_preferences'' ''b'', False)]\<rparr>)"
    by (simp add: run_simps)
  have h2: "\<not> raised_since two_items
               (world_after (getAllItems JSValue_AsString Map.empty ([], two_items)))"
    unfolding run by (simp add: observe_defs two_items_def)
  have items: "{(UserName c, Password c) | c. c \<in> set (store two_items)
                  \<and> Resource c = getSharedPreferences JSValue_AsString Map.empty}
               = {(''a'', ''1''), (''b'', ''2'')}"
    unfolding records_as_list by (simp add: two_items_def getSharedPreferences_def)
  have unused: "promise_after (getAllItems JSValue_AsString
        [''sharedPreferencesName'' \<mapsto> JSString ''unused''] ([], two_items)) = [Resolve Map.empty]"
    by (simp add: run_simps)
  from getAllItems_exactly_the_records [OF h1 h2] items
  have "\<exists>m. promise_after (getAllItems JSValue_AsString Map.empty ([], two_items)) = [Resolve m]
          \<and> Map.graph m = {(''a'', ''1''), (''b'', ''2'')}"
    by auto
  with h1 h2 run unused show ?thesis by (simp add: promise_after_def)
qed

text \<open>
  C6. If any vault call made by getItem, setItem, deleteItem or getAllItems raises (the
  construction of the vault object, a lookup, an add, a remove, the enumeration or a read
  inside the loop of getAllItems), the method returns normally and the only completion it
  makes on the promise is the rejection "cannot access datastore": nothing is resolved, and
  the pairs getAllItems had gathered are dropped.
\<close>

theorem vault_exception_rejects_whole_operation:
  "(raised_since w (world_after (getItem AsString key options (p, w))) \<longrightarrow>
      fst (getItem AsString key options (p, w)) = Inr ()
      \<and> promise_after (getItem AsString key options (p, w))
          = p @ [Reject ''cannot access datastore''])
   \<and> (raised_since w (world_after (setItem AsString key val options (p, w))) \<longrightarrow>
      fst (setItem AsString key val options (p, w)) = Inr ()
      \<and> promise_after (setItem AsString key val options (p, w))
          = p @ [Reject ''cannot access datastore''])
   \<and> (raised_since w (world_after (deleteItem AsString key options (p, w))) \<longrightarrow>
      fst (deleteItem AsString key options (p, w)) = Inr ()
      \<and> promise_after (deleteItem AsString key options (p, w))
          = p @ [Reject ''cannot access datastore''])
   \<and> (raised_since w (world_after (getAllItems AsString options (pa, w))) \<longrightarrow>
      fst (getAllItems AsString options (pa, w)) = Inr ()
      \<and> promise_after (getAllItems AsString options (pa, w))
          = pa @ [Reject ''cannot access datastore''])"
proof (intro conjI impI)
  assume raised: "raised_since w (world_after (getItem AsString key options (p, w)))"
  then have "key \<noteq> []"
    by (auto simp: getItem_def promise_Reject_def observe_defs)
  with raised show "fst (getItem AsString key options (p, w)) = Inr ()"
    and "promise_after (getItem AsString key options (p, w)) = p @ [Reject ''cannot access datastore'']"
    by (auto simp: getItem_cases Let_def observe_defs split: if_splits option.splits)
next
  assume raised: "raised_since w (world_after (setItem AsString key val options (p, w)))"
  then have "key \<noteq> []"
    by (auto simp: setItem_def promise_Reject_def observe_defs)
  with raised show "fst (setItem AsString key val options (p, w)) = Inr ()"
    and "promise_after (setItem AsString key val options (p, w)) = p @ [Reject ''cannot access datastore'']"
    by (auto simp: setItem_cases Let_def observe_defs split: if_splits)
next
  assume raised: "raised_since w (world_after (deleteItem AsString key options (p, w)))"
  then have "key \<noteq> []"
    by (auto simp: deleteItem_def promise_Reject_def observe_defs)
  with raised show "fst (deleteItem AsString key options (p, w)) = Inr ()"
    and "promise_after (deleteItem AsString key options (p, w)) = p @ [Reject ''cannot access datastore'']"
    by (auto simp: deleteItem_cases Let_def observe_defs split: if_splits option.splits)
next
  assume "raised_since w (world_after (getAllItems AsString options (pa, w)))"
  then show "fst (getAllItems AsString options (pa, w)) = Inr ()"
    and "promise_after (getAllItems AsString options (pa, w)) = pa @ [Reject ''cannot access datastore'']"
    by (simp_all add: getAllItems_outcome)
qed

theorem vault_exception_rejects_whole_operation_witness:
  "raised_since (two_items\<lparr>faults := [False, True]\<rparr>)
     (world_after (getItem JSValue_AsString ''a'' Map.empty ([], two_items\<lparr>faults := [False, True]\<rparr>)))
   \<and> promise_after (getItem JSValue_AsString ''a'' Map.empty ([], two_items\<lparr>faults := [False, True]\<rparr>))
       = [Reject ''cannot access datastore'']
   \<and> promise_after (setItem JSValue_AsString ''a'' ''3'' Map.empty ([], two_items\<lparr>faults := [True]\<rparr>))
       = [Reject ''cannot access datastore'']
   \<and> promise_after (deleteItem JSValue_AsString ''a'' Map.empty
         ([], two_items\<lparr>faults := [False, False, True]\<rparr>))
       = [Reject ''cannot access datastore'']
   \<and> raised_since (two_items\<lparr>faults := [False, False, False, True]\<rparr>)
     (world_after (getAllItems JSValue_AsString Map.empty
        ([], two_items\<lparr>faults := [False, False, False, True]\<rparr>)))
   \<and> promise_after (getAllItems JSValue_AsString Map.empty
         ([], two_items\<lparr>faults := [False, False, False, True]\<rparr>))
       = [Reject ''cannot access datastore'']"
proof -
  let ?g = "two_items\<lparr>faults := [False, True]\<rparr>"
  let ?s = "two_items\<lparr>faults := [True]\<rparr>"
  let ?d = "two_items\<lparr>faults := [False, False, True]\<rparr>"
  let ?a = "two_items\<lparr>faults := [False, False, False, True]\<rparr>"
  have g: "raised_since ?g (world_after (getItem JSValue_AsString ''a'' Map.empty ([], ?g)))"
    by (simp add: eval_simps)
  have s: "raised_since ?s (world_after (setItem JSValue_AsString ''a'' ''3'' Map.empty ([], ?s)))"
    by (simp add: eval_simps)
  have d: "raised_since ?d (world_after (deleteItem JSValue_AsString ''a'' Map.empty ([], ?d)))"
    by (simp add: eval_simps)
  have a: "raised_since ?a (world_after (getAllItems JSValue_AsString Map.empty ([], ?a)))"
    by (simp add: run_simps)
  note all = vault_exception_rejects_whole_operation
    [where AsString = JSValue_AsString and options = Map.empty and key = "''a''"
       and val = "''3''" and p = "[]" and pa = "[]"]
  from all [where w = ?g] g
  have "promise_after (getItem JSValue_AsString ''a'' Map.empty ([], ?g))
          = [] @ [Reject ''cannot access datastore'']"
    by blast
  moreover from all [where w = ?s] s
  have "promise_after (setItem JSValue_AsString ''a'' ''3'' Map.empty ([], ?s))
          = [] @ [Reject ''cannot access datastore'']"
    by blast
  moreover from all [where w = ?d] d
  have "promise_after (deleteItem JSValue_AsString ''a'' Map.empty ([], ?d))
          = [] @ [Reject ''cannot access datastore'']"
    by blast
  moreover from all [where w = ?a] a
  have "promise_after (getAllItems JSValue_AsString Map.empty ([], ?a))
          = [] @ [Reject ''cannot access datastore'']"
    by blast
  ultimately show ?thesis using g a by simp
qed

text \<open>
  C7, as amended. Resolution of the collection name is a total function of the options: the
  default literal "shared_preferences" when the field sharedPreferencesName is absent, the
  conversion \<^verbatim>\<open>AsString\<close> of the field's value when it is present, whatever its type.
  A method's behaviour depends on the options through the resolved name only, so omitting
  the field is the same as passing a value that converts to the default literal.
\<close>

theorem collection_name_resolution:
  "getSharedPreferences AsString options =
     (case options ''sharedPreferencesName'' of
        None \<Rightarrow> ''shared_preferences''
      | Some v \<Rightarrow> AsString v)
   \<and> (getSharedPreferences AsString options' = getSharedPreferences AsString options \<longrightarrow>
        getItem AsString key options' = getItem AsString key options
        \<and> setItem AsString key val options' = setItem AsString key val options
        \<and> deleteItem AsString key options' = deleteItem AsString key options
        \<and> getAllItems AsString options' = getAllItems AsString options)"
  by (simp add: getSharedPreferences_def getItem_def setItem_def deleteItem_def getAllItems_def
        split: option.splits)

theorem collection_name_resolution_witness:
  "getSharedPreferences JSValue_AsString Map.empty = ''shared_preferences''
   \<and> getSharedPreferences JSValue_AsString [''sharedPreferencesName'' \<mapsto> JSString ''shared_preferences'']
       = getSharedPreferences JSValue_AsString Map.empty
   \<and> getSharedPreferences JSValue_AsString [''sharedPreferencesName'' \<mapsto> JSString ''other'']
       = ''other''
   \<and> getItem JSValue_AsString ''a'' [''sharedPreferencesName'' \<mapsto> JSString ''shared_preferences'']
       = getItem JSValue_AsString ''a'' Map.empty
   \<and> getAllItems JSValue_AsString [''sharedPreferencesName'' \<mapsto> JSString ''shared_preferences'']
       = getAllItems JSValue_AsString Map.empty"
proof -
  have same: "getSharedPreferences JSValue_AsString
                [''sharedPreferencesName'' \<mapsto> JSString ''shared_preferences'']
              = getSharedPreferences JSValue_AsString Map.empty"
    by (simp add: getSharedPreferences_def)
  from collection_name_resolution [of JSValue_AsString Map.empty] 
  have absent: "getSharedPreferences JSValue_AsString Map.empty = ''shared_preferences''"
    by simp
  from collection_name_resolution
    [of JSValue_AsString "[''sharedPreferencesName'' \<mapsto> JSString ''other'']"]
  have present: "getSharedPreferences JSValue_AsString
                   [''sharedPreferencesName'' \<mapsto> JSString ''other''] = ''other''"
    by simp
  from collection_name_resolution
    [where AsString = JSValue_AsString and options = Map.empty and key = "''a''"
       and options' = "[''sharedPreferencesName'' \<mapsto> JSString ''shared_preferences'']"] same
  have "getItem JSValue_AsString ''a'' [''sharedPreferencesName'' \<mapsto> JSString ''shared_preferences'']
          = getItem JSValue_AsString ''a'' Map.empty
        \<and> getAllItems JSValue_AsString [''sharedPreferencesName'' \<mapsto> JSString ''shared_preferences'']
          = getAllItems JSValue_AsString Map.empty"
    by blast
  with same absent present show ?thesis by blast
qed

text \<open>
  C7 as stated fails: a present field that is not a string does not fall back to the default
  collection. With the boolean true in the field the resolved name is "true", with an empty
  object it is the empty string; and getItem of the key a, stored in the default collection,
  rejects with "key not found" when the field holds true, where the same call with the
  literal "shared_preferences" resolves with the stored value.
\<close>

theorem mistyped_collection_name_counterexample:
  "getSharedPreferences JSValue_AsString [''sharedPreferencesName'' \<mapsto> JSBoolean True] = ''true''
   \<and> getSharedPreferences JSValue_AsString [''sharedPreferencesName'' \<mapsto> JSObject []] = []
   \<and> promise_after (getItem JSValue_AsString ''a''
         [''sharedPreferencesName'' \<mapsto> JSBoolean True] ([], two_items))
       = [Reject ''key not found'']
   \<and> promise_after (getItem JSValue_AsString ''a''
         [''sharedPreferencesName'' \<mapsto> JSString ''shared_preferences''] ([], two_items))
       = [Resolve ''1'']"
  by (simp add: eval_simps)

text \<open>
  C8. For a non-empty key, a setItem during which no vault call raised resolves the promise
  with the value argument; and whenever a setItem resolved, it resolved with the value argument
  and the only calls that reached the vault were the construction of the vault object and the
  add: the value is the argument echoed, no lookup re-read it.
\<close>

theorem setItem_echoes_its_argument:
  assumes "key \<noteq> []"
  shows "(\<not> raised_since w (world_after (setItem AsString key val options (p, w))) \<longrightarrow>
            promise_after (setItem AsString key val options (p, w)) = p @ [Resolve val])
         \<and> (promise_after (setItem AsString key val options (p, w)) = p @ [Resolve x] \<longrightarrow>
              x = val
              \<and> trace (world_after (setItem AsString key val options (p, w))) =
                  trace w @ [(NewPasswordVault, False),
                             (CallAdd \<lparr>Resource = getSharedPreferences AsString options,
                                       UserName = key, Password = val\<rparr>, False)])"
  using assms by (auto simp: setItem_cases Let_def observe_defs split: if_splits)

theorem setItem_echoes_its_argument_witness:
  "''a'' \<noteq> []
   \<and> promise_after (setItem JSValue_AsString ''a'' ''3'' Map.empty ([], two_items)) = [Resolve ''3'']
   \<and> trace (world_after (setItem JSValue_AsString ''a'' ''3'' Map.empty ([], two_items))) =
        [(NewPasswordVault, False),
         (CallAdd \<lparr>Resource = ''shared_preferences'', UserName = ''a'', Password = ''3''\<rparr>, False)]"
  using setItem_echoes_its_argument [where key = "''a''" and AsString = JSValue_AsString
      and val = "''3''" and options = Map.empty and p = "[]" and w = two_items and x = "''3''"]
  by (simp add: eval_simps)

text \<open>
  C9. isSensorAvailable and hasEnrolledFingerprints resolve the promise with false and return
  normally, whatever the platform state, which they leave as it was.
\<close>

theorem sensor_probes_resolve_false:
  "isSensorAvailable (promise, w) = (Inr (), promise @ [Resolve False], w)
   \<and> hasEnrolledFingerprints (promise, w) = (Inr (), promise @ [Resolve False], w)"
  by (simp add: isSensorAvailable_def hasEnrolledFingerprints_def promise_Resolve_def)

text \<open>
  C10. The claim holds for getItem, setItem, deleteItem and the two probes, and for
  getAllItems as long as nobody else changes the vault during the call
  (\<open>undisturbed_run_completes_once\<close>). It fails for getAllItems when a record is removed by
  another user of the vault between the enumeration and the loop's lookup of that record: the
  lookup answers null, the loop calls \<^verbatim>\<open>data.Password()\<close> on it without the
  \<^verbatim>\<open>!data\<close> test that getItem and deleteItem make, \<^verbatim>\<open>catch (...)\<close> does not handle
  the call through a null object, and the promise is neither resolved nor rejected. Below, the
  vault holds a:1 and b:2 and b is removed after the enumeration: getAllItems ends abnormally
  with no completion, after the four vault calls listed; getItem of b on the vault without b
  makes its one completion, the rejection "key not found".
\<close>

theorem getAllItems_stale_enumeration_completes_nothing:
  "fst (getAllItems_interleaved JSValue_AsString Map.empty
          (filter (\<lambda>c. UserName c \<noteq> ''b'')) ([], two_items)) = Inl AccessViolation
   \<and> promise_after (getAllItems_interleaved JSValue_AsString Map.empty
          (filter (\<lambda>c. UserName c \<noteq> ''b'')) ([], two_items)) = []
   \<and> trace (world_after (getAllItems_interleaved JSValue_AsString Map.empty
          (filter (\<lambda>c. UserName c \<noteq> ''b'')) ([], two_items)))
       = [(NewPasswordVault, False),
          (CallFindAllByResource ''shared_preferences'', False),
          (CallRetrieve ''shared_preferences'' ''a'', False),
          (CallRetrieve ''shared_preferences'' ''b'', False)]
   \<and> promise_after (getItem JSValue_AsString ''b'' Map.empty
          ([], two_items\<lparr>store := filter (\<lambda>c. UserName c \<noteq> ''b'') (store two_items)\<rparr>))
       = [Reject ''key not found'']"
  by (simp add: getAllItems_interleaved_def write_store_def run_simps getItem_cases)

end
